theory Spec2Isabelle
  imports Main "HOL-Library.Word"
begin

section \<open>Kernel state\<close>

text \<open>
  A shallow embedding of \<^verbatim>\<open>kern/thread/synch.c\<close>: the semaphore, the lock and the
  condition variable of a single-processor teaching kernel.

  Pointers are addresses; \<^verbatim>\<open>NULL\<close> is address 0. Each C struct is a record, and the
  memory holding the structs of one type is a function from addresses to records.
  An address may be dereferenced only while it is in \<open>allocated\<close>.
\<close>

type_synonym addr = nat

definition NULL :: addr where
  "NULL = 0"

text \<open>\<^verbatim>\<open>struct semaphore { char *name; volatile int count; }\<close>\<close>

record semaphore =
  sem_name :: addr
  sem_count :: "32 word"

text \<open>\<^verbatim>\<open>struct lock { char *name; struct thread *lk_holder; }\<close>\<close>

record lock =
  lk_name :: addr
  lk_holder :: addr

text \<open>\<^verbatim>\<open>struct cv { char *name; }\<close>\<close>

record cv =
  cv_name :: addr

text \<open>
  Every call that leaves \<^verbatim>\<open>synch.c\<close> (interrupt control, wait channels, allocator)
  and every store to a field of a semaphore, lock or condition variable is recorded,
  in order, in the ghost field \<open>trace\<close>: the trace tells at which priority level a
  store or a wake-up happened.
\<close>

datatype event =
    Ev_splhigh
  | Ev_splx int
  | Ev_sleep addr
  | Ev_wakeup addr
  | Ev_wakeone addr
  | Ev_hassleepers addr
  | Ev_kmalloc addr
  | Ev_kfree addr
  | Ev_store addr

record kstate =
  free_blocks :: "addr list"
  allocated :: "addr set"
  sems :: "addr \<Rightarrow> semaphore"
  locks :: "addr \<Rightarrow> lock"
  cvs :: "addr \<Rightarrow> cv"
  strings :: "addr \<Rightarrow> string"
  curthread :: addr
  in_interrupt :: int
  curspl :: int
  sleepers :: "(addr \<times> addr) list"
  trace :: "event list"

text \<open>
  The calling thread is not alone. Whenever it sleeps, the other threads run; the
  \<open>world\<close> is the sequence of their atomic actions still to come, each an arbitrary
  change of the kernel state. An empty world means that nobody else will ever run.

  The functions of \<^verbatim>\<open>synch.c\<close> touch the shared fields only with interrupts masked, on
  a single processor, so nobody runs in between two such accesses unless the caller
  sleeps. A preemption of the caller while it runs with interrupts enabled (before its
  first \<^verbatim>\<open>splhigh\<close>, after a \<^verbatim>\<open>splx\<close>) is not a step of the model: what the others do
  then counts as part of the state the call starts from, of the world action after
  which it resumes, or of what happens after it has returned.
\<close>

type_synonym world = "(kstate \<Rightarrow> kstate) list"

type_synonym conf = "world \<times> kstate"

text \<open>
  A call either returns a value, dies in a failed \<^verbatim>\<open>assert\<close> (keeping the state at the
  point of failure), dereferences an invalid pointer, or stays blocked forever.
\<close>

datatype 'a outcome =
    Returns 'a conf
  | Panics kstate
  | Faults
  | Blocks

type_synonym 'a kern = "conf \<Rightarrow> 'a outcome"

subsection \<open>Sequencing\<close>

definition ret :: "'a \<Rightarrow> 'a kern" where
  "ret x = (\<lambda>c. Returns x c)"

definition kbind :: "'a kern \<Rightarrow> ('a \<Rightarrow> 'b kern) \<Rightarrow> 'b kern" where
  "kbind m f = (\<lambda>c. case m c of
       Returns x c' \<Rightarrow> f x c'
     | Panics s \<Rightarrow> Panics s
     | Faults \<Rightarrow> Faults
     | Blocks \<Rightarrow> Blocks)"

definition seq :: "unit kern \<Rightarrow> 'b kern \<Rightarrow> 'b kern" where
  "seq m n = kbind m (\<lambda>_. n)"

primrec block :: "unit kern list \<Rightarrow> unit kern" where
  "block [] = ret ()"
| "block (m # ms) = seq m (block ms)"

definition gets :: "(kstate \<Rightarrow> 'a) \<Rightarrow> 'a kern" where
  "gets f = (\<lambda>(ws, s). Returns (f s) (ws, s))"

definition modify :: "(kstate \<Rightarrow> kstate) \<Rightarrow> unit kern" where
  "modify f = (\<lambda>(ws, s). Returns () (ws, f s))"

definition log :: "event \<Rightarrow> unit kern" where
  "log e = modify (\<lambda>s. s\<lparr>trace := trace s @ [e]\<rparr>)"

text \<open>\<^verbatim>\<open>assert(b)\<close>: a false condition halts the kernel.\<close>

definition kassert :: "bool \<Rightarrow> unit kern" where
  "kassert b = (\<lambda>(ws, s). if b then Returns () (ws, s) else Panics s)"

subsection \<open>Memory\<close>

definition valid :: "addr \<Rightarrow> kstate \<Rightarrow> bool" where
  "valid p s \<longleftrightarrow> p \<noteq> NULL \<and> p \<in> allocated s"

definition deref :: "addr \<Rightarrow> unit kern" where
  "deref p = (\<lambda>(ws, s). if valid p s then Returns () (ws, s) else Faults)"

definition sem_get :: "addr \<Rightarrow> semaphore kern" where
  "sem_get p = seq (deref p) (gets (\<lambda>s. sems s p))"

definition sem_set :: "addr \<Rightarrow> (semaphore \<Rightarrow> semaphore) \<Rightarrow> unit kern" where
  "sem_set p f = seq (deref p)
     (modify (\<lambda>s. s\<lparr>sems := (sems s)(p := f (sems s p)), trace := trace s @ [Ev_store p]\<rparr>))"

definition lock_get :: "addr \<Rightarrow> lock kern" where
  "lock_get p = seq (deref p) (gets (\<lambda>s. locks s p))"

definition lock_set :: "addr \<Rightarrow> (lock \<Rightarrow> lock) \<Rightarrow> unit kern" where
  "lock_set p f = seq (deref p)
     (modify (\<lambda>s. s\<lparr>locks := (locks s)(p := f (locks s p)), trace := trace s @ [Ev_store p]\<rparr>))"

definition cv_get :: "addr \<Rightarrow> cv kern" where
  "cv_get p = seq (deref p) (gets (\<lambda>s. cvs s p))"

definition cv_set :: "addr \<Rightarrow> (cv \<Rightarrow> cv) \<Rightarrow> unit kern" where
  "cv_set p f = seq (deref p)
     (modify (\<lambda>s. s\<lparr>cvs := (cvs s)(p := f (cvs s p)), trace := trace s @ [Ev_store p]\<rparr>))"

subsection \<open>External collaborators\<close>

text \<open>
  Modelled from the spec: the allocator (\<^verbatim>\<open>kmalloc\<close>, \<^verbatim>\<open>kstrdup\<close>, \<^verbatim>\<open>kfree\<close> of
  \<^verbatim>\<open>lib.h\<close>) is not part of the file. \<open>free_blocks\<close> lists the (non-null) addresses the
  allocator can still hand out. An allocation hands out the next free block, or
  \<^verbatim>\<open>NULL\<close> when none is left; the new block keeps whatever contents the address had.
  Freeing a block that is not allocated is an invalid access.
\<close>

definition kmalloc :: "addr kern" where
  "kmalloc = (\<lambda>(ws, s). case free_blocks s of
       [] \<Rightarrow> Returns NULL (ws, s\<lparr>trace := trace s @ [Ev_kmalloc NULL]\<rparr>)
     | p # ps \<Rightarrow> Returns p (ws, s\<lparr>free_blocks := ps, allocated := insert p (allocated s),
                                  trace := trace s @ [Ev_kmalloc p]\<rparr>))"

definition kstrdup :: "string \<Rightarrow> addr kern" where
  "kstrdup str = kbind kmalloc (\<lambda>p.
     if p = NULL then ret NULL
     else seq (modify (\<lambda>s. s\<lparr>strings := (strings s)(p := str)\<rparr>)) (ret p))"

definition kfree :: "addr \<Rightarrow> unit kern" where
  "kfree p = seq (deref p)
     (modify (\<lambda>s. s\<lparr>free_blocks := p # free_blocks s, allocated := allocated s - {p},
                    trace := trace s @ [Ev_kfree p]\<rparr>))"

text \<open>
  Modelled from the spec: the interrupt priority level (\<^verbatim>\<open>machine/spl.h\<close>).
  \<^verbatim>\<open>splhigh\<close> raises the level so that all maskable interrupts are blocked and returns
  the previous level; \<^verbatim>\<open>splx\<close> restores a level.
\<close>

definition SPL_HIGH :: int where
  "SPL_HIGH = 15"

definition splhigh :: "int kern" where
  "splhigh = (\<lambda>(ws, s).
     Returns (curspl s) (ws, s\<lparr>curspl := SPL_HIGH, trace := trace s @ [Ev_splhigh]\<rparr>))"

definition splx :: "int \<Rightarrow> unit kern" where
  "splx spl = modify (\<lambda>s. s\<lparr>curspl := spl, trace := trace s @ [Ev_splx spl]\<rparr>)"

text \<open>
  Modelled from the spec: the wait channels (\<^verbatim>\<open>thread.h\<close>). \<open>sleepers\<close> lists, in the
  order they fell asleep, each sleeping thread with the address it sleeps on.
  \<^verbatim>\<open>thread_wakeup\<close> wakes every sleeper of a channel, \<^verbatim>\<open>thread_wakeone\<close> the first one,
  \<^verbatim>\<open>thread_hassleepers\<close> tells whether there is any.
\<close>

definition on_chan :: "addr \<Rightarrow> addr \<times> addr \<Rightarrow> bool" where
  "on_chan chan e \<longleftrightarrow> snd e = chan"

definition thread_wakeup :: "addr \<Rightarrow> unit kern" where
  "thread_wakeup chan = modify (\<lambda>s.
     s\<lparr>sleepers := filter (\<lambda>e. \<not> on_chan chan e) (sleepers s),
       trace := trace s @ [Ev_wakeup chan]\<rparr>)"

fun drop_first :: "addr \<Rightarrow> (addr \<times> addr) list \<Rightarrow> (addr \<times> addr) list" where
  "drop_first chan [] = []"
| "drop_first chan (e # es) = (if on_chan chan e then es else e # drop_first chan es)"

definition thread_wakeone :: "addr \<Rightarrow> unit kern" where
  "thread_wakeone chan = modify (\<lambda>s.
     s\<lparr>sleepers := drop_first chan (sleepers s),
       trace := trace s @ [Ev_wakeone chan]\<rparr>)"

definition thread_hassleepers :: "addr \<Rightarrow> int kern" where
  "thread_hassleepers chan = seq (log (Ev_hassleepers chan))
     (gets (\<lambda>s. if list_ex (on_chan chan) (sleepers s) then 1 else 0))"

text \<open>
  Modelled from the spec: \<^verbatim>\<open>thread_sleep\<close> blocks the calling thread on a channel and
  gives up the processor. The other threads then run, one world action after the
  other, until one of them has woken the caller; the caller resumes as the current
  thread at the priority level it went to sleep with. If the world ends first, the
  caller is never woken.
\<close>

fun await :: "addr \<Rightarrow> addr \<Rightarrow> int \<Rightarrow> world \<Rightarrow> kstate \<Rightarrow> unit outcome" where
  "await t chan spl [] s = Blocks"
| "await t chan spl (w # ws) s =
     (if (t, chan) \<in> set (sleepers (w s)) then await t chan spl ws (w s)
      else Returns () (ws, (w s)\<lparr>curthread := t, curspl := spl\<rparr>))"

definition thread_sleep :: "addr \<Rightarrow> unit kern" where
  "thread_sleep chan = (\<lambda>(ws, s).
     await (curthread s) chan (curspl s) ws
       (s\<lparr>sleepers := sleepers s @ [(curthread s, chan)],
          trace := trace s @ [Ev_sleep chan]\<rparr>))"

lemma await_shorter:
  "await t chan spl ws s = Returns x (ws', s') \<Longrightarrow> length ws' < length ws"
proof (induction ws arbitrary: s)
  case Nil
  then show ?case by simp
next
  case (Cons w ws)
  show ?case
  proof (cases "(t, chan) \<in> set (sleepers (w s))")
    case True
    with Cons.prems have "await t chan spl ws (w s) = Returns x (ws', s')" by simp
    then have "length ws' < length ws" by (rule Cons.IH)
    then show ?thesis by simp
  next
    case False
    with Cons.prems show ?thesis by simp
  qed
qed

lemma thread_sleep_shorter:
  "thread_sleep chan (ws, s) = Returns x (ws', s') \<Longrightarrow> length ws' < length ws"
  unfolding thread_sleep_def by (auto dest: await_shorter)

section \<open>Semaphore\<close>

definition sem_create :: "string \<Rightarrow> 32 word \<Rightarrow> addr kern" where
  "sem_create namearg initial_count =
     kbind kmalloc (\<lambda>sem.
       if sem = NULL then ret NULL
       else
         kbind (kstrdup namearg) (\<lambda>p.
         seq (sem_set sem (sem_name_update (\<lambda>_. p)))
        (kbind (sem_get sem) (\<lambda>x.
           if sem_name x = NULL then seq (kfree sem) (ret NULL)
           else
             seq (sem_set sem (sem_count_update (\<lambda>_. initial_count)))
                 (ret sem)))))"

definition sem_destroy :: "addr \<Rightarrow> unit kern" where
  "sem_destroy sem =
     seq (kassert (sem \<noteq> NULL))
    (kbind splhigh (\<lambda>spl.
     block
      [kbind (thread_hassleepers sem) (\<lambda>n. kassert (n = 0)),
       splx spl,
       kbind (sem_get sem) (\<lambda>x. kfree (sem_name x)),
       kfree sem]))"

text \<open>The loop of \<^verbatim>\<open>P\<close>: \<^verbatim>\<open>while (sem->count==0) { thread_sleep(sem); }\<close>\<close>

function P_loop :: "addr \<Rightarrow> world \<Rightarrow> kstate \<Rightarrow> unit outcome" where
  "P_loop sem ws s =
     (case sem_get sem (ws, s) of
        Returns x _ \<Rightarrow>
          if sem_count x = 0 then
            (case thread_sleep sem (ws, s) of
               Returns _ (ws', s') \<Rightarrow> P_loop sem ws' s'
             | Panics s' \<Rightarrow> Panics s'
             | Faults \<Rightarrow> Faults
             | Blocks \<Rightarrow> Blocks)
          else Returns () (ws, s)
      | Panics s' \<Rightarrow> Panics s'
      | Faults \<Rightarrow> Faults
      | Blocks \<Rightarrow> Blocks)"
  by pat_completeness auto
termination
  by (relation "measure (\<lambda>(sem, ws, s). length ws)") (auto dest: thread_sleep_shorter)

definition P :: "addr \<Rightarrow> unit kern" where
  "P sem =
     seq (kassert (sem \<noteq> NULL))
    (seq (kbind (gets in_interrupt) (\<lambda>i. kassert (i = 0)))
    (kbind splhigh (\<lambda>spl.
     block
      [(\<lambda>(ws, s). P_loop sem ws s),
       kbind (sem_get sem) (\<lambda>x. kassert (0 <s sem_count x)),
       sem_set sem (sem_count_update (\<lambda>c. c - 1)),
       splx spl])))"

definition V :: "addr \<Rightarrow> unit kern" where
  "V sem =
     seq (kassert (sem \<noteq> NULL))
    (kbind splhigh (\<lambda>spl.
     block
      [sem_set sem (sem_count_update (\<lambda>c. c + 1)),
       kbind (sem_get sem) (\<lambda>x. kassert (0 <s sem_count x)),
       thread_wakeup sem,
       splx spl]))"

section \<open>Lock\<close>

definition lock_create :: "string \<Rightarrow> addr kern" where
  "lock_create name =
     kbind kmalloc (\<lambda>lock.
       if lock = NULL then ret NULL
       else
         kbind (kstrdup name) (\<lambda>p.
         seq (lock_set lock (lk_name_update (\<lambda>_. p)))
        (kbind (lock_get lock) (\<lambda>x.
           if lk_name x = NULL then seq (kfree lock) (ret NULL)
           else
             seq (lock_set lock (lk_holder_update (\<lambda>_. NULL)))
                 (ret lock)))))"

definition lock_destroy :: "addr \<Rightarrow> unit kern" where
  "lock_destroy lock =
     block
      [kassert (lock \<noteq> NULL),
       kbind (lock_get lock) (\<lambda>x. kfree (lk_name x)),
       kfree lock]"

text \<open>
  The loop of \<^verbatim>\<open>lock_acquire\<close>:
  \<^verbatim>\<open>while (lock->lk_holder != NULL) { thread_sleep(lock); }\<close>
\<close>

function lock_acquire_loop :: "addr \<Rightarrow> world \<Rightarrow> kstate \<Rightarrow> unit outcome" where
  "lock_acquire_loop lock ws s =
     (case lock_get lock (ws, s) of
        Returns x _ \<Rightarrow>
          if lk_holder x \<noteq> NULL then
            (case thread_sleep lock (ws, s) of
               Returns _ (ws', s') \<Rightarrow> lock_acquire_loop lock ws' s'
             | Panics s' \<Rightarrow> Panics s'
             | Faults \<Rightarrow> Faults
             | Blocks \<Rightarrow> Blocks)
          else Returns () (ws, s)
      | Panics s' \<Rightarrow> Panics s'
      | Faults \<Rightarrow> Faults
      | Blocks \<Rightarrow> Blocks)"
  by pat_completeness auto
termination
  by (relation "measure (\<lambda>(lock, ws, s). length ws)") (auto dest: thread_sleep_shorter)

definition lock_acquire :: "addr \<Rightarrow> unit kern" where
  "lock_acquire lock =
     seq (kassert (lock \<noteq> NULL))
    (kbind splhigh (\<lambda>spl.
     block
      [(\<lambda>(ws, s). lock_acquire_loop lock ws s),
       kbind (gets curthread) (\<lambda>t. lock_set lock (lk_holder_update (\<lambda>_. t))),
       splx spl]))"

definition lock_release :: "addr \<Rightarrow> unit kern" where
  "lock_release lock =
     seq (kassert (lock \<noteq> NULL))
    (kbind splhigh (\<lambda>spl.
     block
      [lock_set lock (lk_holder_update (\<lambda>_. NULL)),
       thread_wakeup lock,
       splx spl]))"

text \<open>The C truth value of \<^verbatim>\<open>lock->lk_holder == curthread\<close>: 1 or 0.\<close>

definition lock_do_i_hold :: "addr \<Rightarrow> int kern" where
  "lock_do_i_hold lock =
     kbind (lock_get lock) (\<lambda>x.
     kbind (gets curthread) (\<lambda>t.
     ret (if lk_holder x = t then 1 else 0)))"

section \<open>Condition variable\<close>

definition cv_create :: "string \<Rightarrow> addr kern" where
  "cv_create name =
     kbind kmalloc (\<lambda>cv.
       if cv = NULL then ret NULL
       else
         kbind (kstrdup name) (\<lambda>p.
         seq (cv_set cv (cv_name_update (\<lambda>_. p)))
        (kbind (cv_get cv) (\<lambda>x.
           if cv_name x = NULL then seq (kfree cv) (ret NULL)
           else ret cv))))"

definition cv_destroy :: "addr \<Rightarrow> unit kern" where
  "cv_destroy cv =
     block
      [kassert (cv \<noteq> NULL),
       kbind (cv_get cv) (\<lambda>x. kfree (cv_name x)),
       kfree cv]"

definition cv_wait :: "addr \<Rightarrow> addr \<Rightarrow> unit kern" where
  "cv_wait cv lock =
     block
      [kassert (cv \<noteq> NULL),
       kassert (lock \<noteq> NULL),
       kbind (lock_do_i_hold lock) (\<lambda>b. kassert (b \<noteq> 0)),
       kbind splhigh (\<lambda>spl.
         block
          [lock_release lock,
           thread_sleep cv,
           splx spl]),
       lock_acquire lock]"

definition cv_signal :: "addr \<Rightarrow> addr \<Rightarrow> unit kern" where
  "cv_signal cv lock =
     block
      [kassert (cv \<noteq> NULL),
       kassert (lock \<noteq> NULL),
       kbind (lock_do_i_hold lock) (\<lambda>b. kassert (b \<noteq> 0)),
       thread_wakeone cv]"

definition cv_broadcast :: "addr \<Rightarrow> addr \<Rightarrow> unit kern" where
  "cv_broadcast cv lock =
     block
      [kassert (cv \<noteq> NULL),
       kassert (lock \<noteq> NULL),
       kbind (lock_do_i_hold lock) (\<lambda>b. kassert (b \<noteq> 0)),
       kbind splhigh (\<lambda>spl.
         block
          [thread_wakeup cv,
           splx spl])]"

section \<open>Sequences of semaphore operations\<close>

datatype sem_op = Op_P | Op_V

text \<open>The calls of a sequence of \<^verbatim>\<open>P\<close> and \<^verbatim>\<open>V\<close> on one semaphore, one after the other.\<close>

primrec sem_ops :: "addr \<Rightarrow> sem_op list \<Rightarrow> unit kern" where
  "sem_ops sem [] = ret ()"
| "sem_ops sem (x # xs) = seq (case x of Op_P \<Rightarrow> P sem | Op_V \<Rightarrow> V sem) (sem_ops sem xs)"

text \<open>The limits of a 32-bit \<^verbatim>\<open>int\<close>.\<close>

definition INT_MAX :: "32 word" where
  "INT_MAX = 2147483647"

definition INT_MIN :: "32 word" where
  "INT_MIN = - 2147483648"

text \<open>The invariant of a semaphore: it is there and its count is not negative.\<close>

definition sem_inv :: "addr \<Rightarrow> kstate \<Rightarrow> bool" where
  "sem_inv sem s \<longleftrightarrow> valid sem s \<and> 0 \<le>s sem_count (sems s sem)"

text \<open>
  The other threads keep the invariant: as they too use the semaphore through these
  functions only, none of their actions frees it or makes its count negative.
\<close>

definition world_keeps :: "addr \<Rightarrow> world \<Rightarrow> bool" where
  "world_keeps sem ws \<longleftrightarrow> (\<forall>w \<in> set ws. \<forall>s. sem_inv sem s \<longrightarrow> sem_inv sem (w s))"

section \<open>Example configurations\<close>

text \<open>
  A semaphore at address 10 with count 1, an unheld lock at 20 and a condition
  variable at 30, their names at 11, 21 and 31; thread 100 is running, interrupts are
  enabled and nobody sleeps.
\<close>

definition example_state :: kstate where
  "example_state =
     \<lparr>free_blocks = [40, 41],
      allocated = {10, 11, 20, 21, 30, 31},
      sems = (\<lambda>_. \<lparr>sem_name = 0, sem_count = 0\<rparr>)(10 := \<lparr>sem_name = 11, sem_count = 1\<rparr>),
      locks = (\<lambda>_. \<lparr>lk_name = 0, lk_holder = 0\<rparr>)(20 := \<lparr>lk_name = 21, lk_holder = 0\<rparr>),
      cvs = (\<lambda>_. \<lparr>cv_name = 0\<rparr>)(30 := \<lparr>cv_name = 31\<rparr>),
      strings = (\<lambda>_. [])(11 := ''sem'', 21 := ''lock'', 31 := ''cv''),
      curthread = 100,
      in_interrupt = 0,
      curspl = 0,
      sleepers = [],
      trace = []\<rparr>"

text \<open>The same, with the lock held by the thread \<open>t\<close>.\<close>

definition held_by :: "addr \<Rightarrow> kstate" where
  "held_by t = example_state\<lparr>locks := (locks example_state)(20 := \<lparr>lk_name = 21, lk_holder = t\<rparr>)\<rparr>"

text \<open>
  The same after \<^verbatim>\<open>sem_create\<close> has made a second semaphore at address 40, with its
  name at 41 and the count \<open>n\<close>.
\<close>

definition created :: "32 word \<Rightarrow> kstate" where
  "created n = example_state
     \<lparr>free_blocks := [],
      allocated := {10, 11, 20, 21, 30, 31, 40, 41},
      sems := (sems example_state)(40 := \<lparr>sem_name = 41, sem_count = n\<rparr>),
      strings := (strings example_state)(41 := ''sem2''),
      trace := [Ev_kmalloc 40, Ev_kmalloc 41, Ev_store 40, Ev_store 40]\<rparr>"

text \<open>
  What another thread \<open>t\<close> does to the kernel state when it runs the call \<open>m\<close> while
  the caller sleeps; a call that does not return leaves no change.
\<close>

definition as_thread :: "addr \<Rightarrow> unit kern \<Rightarrow> kstate \<Rightarrow> kstate" where
  "as_thread t m s = (case m ([], s\<lparr>curthread := t\<rparr>) of
       Returns _ (_, s') \<Rightarrow> s'
     | Panics _ \<Rightarrow> s
     | Faults \<Rightarrow> s
     | Blocks \<Rightarrow> s)"

section \<open>Basic facts\<close>

declare P_loop.simps [simp del] lock_acquire_loop.simps [simp del]

lemmas kern_defs = ret_def kbind_def seq_def gets_def modify_def log_def kassert_def deref_def
  sem_get_def sem_set_def lock_get_def lock_set_def cv_get_def cv_set_def
  splhigh_def splx_def thread_wakeup_def thread_wakeone_def thread_hassleepers_def
  kfree_def kmalloc_def kstrdup_def

lemma kbind_Returns:
  "kbind m f c = Returns y c' \<longleftrightarrow> (\<exists>x c1. m c = Returns x c1 \<and> f x c1 = Returns y c')"
  by (simp add: kbind_def split: outcome.splits)

lemma seq_Returns:
  "seq m n c = Returns y c' \<longleftrightarrow> (\<exists>c1. m c = Returns () c1 \<and> n c1 = Returns y c')"
  by (simp add: seq_def kbind_Returns)

subsection \<open>Operations that never sleep, as state transformers\<close>

lemma V_eq:
  assumes "valid sem s"
  shows "V sem (ws, s) =
     (if 0 <s sem_count (sems s sem) + 1
      then Returns () (ws, s\<lparr>sems := (sems s)(sem := sem_count_update (\<lambda>c. c + 1) (sems s sem)),
                         sleepers := filter (\<lambda>e. \<not> on_chan sem e) (sleepers s),
                         trace := trace s @ [Ev_splhigh, Ev_store sem, Ev_wakeup sem, Ev_splx (curspl s)]\<rparr>)
      else Panics (s\<lparr>sems := (sems s)(sem := sem_count_update (\<lambda>c. c + 1) (sems s sem)),
                    curspl := SPL_HIGH,
                    trace := trace s @ [Ev_splhigh, Ev_store sem]\<rparr>))"
  using assms by (simp add: V_def kern_defs valid_def)

lemma lock_release_eq:
  assumes "valid lock s"
  shows "lock_release lock (ws, s) =
     Returns () (ws, s\<lparr>locks := (locks s)(lock := lk_holder_update (\<lambda>_. NULL) (locks s lock)),
                       sleepers := filter (\<lambda>e. \<not> on_chan lock e) (sleepers s),
                       trace := trace s @ [Ev_splhigh, Ev_store lock, Ev_wakeup lock, Ev_splx (curspl s)]\<rparr>)"
  using assms by (simp add: lock_release_def kern_defs valid_def)

lemma lock_do_i_hold_eq:
  assumes "valid lock s"
  shows "lock_do_i_hold lock (ws, s) =
     Returns (if lk_holder (locks s lock) = curthread s then 1 else 0) (ws, s)"
  using assms by (simp add: lock_do_i_hold_def kern_defs valid_def)

lemma lock_acquire_free_eq:
  assumes "valid lock s" "lk_holder (locks s lock) = NULL"
  shows "lock_acquire lock (ws, s) =
     Returns () (ws, s\<lparr>locks := (locks s)(lock := lk_holder_update (\<lambda>_. curthread s) (locks s lock)),
                       trace := trace s @ [Ev_splhigh, Ev_store lock, Ev_splx (curspl s)]\<rparr>)"
  using assms by (simp add: lock_acquire_def lock_acquire_loop.simps kern_defs valid_def)

lemma sem_destroy_eq:
  assumes "valid sem s" "valid (sem_name (sems s sem)) s" "sem_name (sems s sem) \<noteq> sem"
  shows "sem_destroy sem (ws, s) =
     (if list_ex (on_chan sem) (sleepers s)
      then Panics (s\<lparr>curspl := SPL_HIGH, trace := trace s @ [Ev_splhigh, Ev_hassleepers sem]\<rparr>)
      else Returns () (ws, s\<lparr>free_blocks := sem # sem_name (sems s sem) # free_blocks s,
                         allocated := allocated s - {sem_name (sems s sem)} - {sem},
                         trace := trace s @ [Ev_splhigh, Ev_hassleepers sem, Ev_splx (curspl s),
                                            Ev_kfree (sem_name (sems s sem)), Ev_kfree sem]\<rparr>))"
  using assms by (simp add: sem_destroy_def kern_defs valid_def)

lemma sem_create_eq:
  assumes "free_blocks s = p # q # rest" "p \<noteq> NULL" "q \<noteq> NULL"
  shows "sem_create namearg initial_count (ws, s) =
     Returns p (ws, s\<lparr>free_blocks := rest,
                      allocated := insert q (insert p (allocated s)),
                      sems := (sems s)(p := (sems s p)\<lparr>sem_name := q, sem_count := initial_count\<rparr>),
                      strings := (strings s)(q := namearg),
                      trace := trace s @ [Ev_kmalloc p, Ev_kmalloc q, Ev_store p, Ev_store p]\<rparr>)"
  using assms by (simp add: sem_create_def kern_defs valid_def)

lemma cv_signal_eq:
  assumes "cv \<noteq> NULL" "valid lock s" "lk_holder (locks s lock) = curthread s"
  shows "cv_signal cv lock (ws, s) =
     Returns () (ws, s\<lparr>sleepers := drop_first cv (sleepers s),
                       trace := trace s @ [Ev_wakeone cv]\<rparr>)"
  using assms by (simp add: cv_signal_def lock_do_i_hold_def kern_defs valid_def)

lemma cv_broadcast_eq:
  assumes "cv \<noteq> NULL" "valid lock s" "lk_holder (locks s lock) = curthread s"
  shows "cv_broadcast cv lock (ws, s) =
     Returns () (ws, s\<lparr>sleepers := filter (\<lambda>e. \<not> on_chan cv e) (sleepers s),
                       trace := trace s @ [Ev_splhigh, Ev_wakeup cv, Ev_splx (curspl s)]\<rparr>)"
  using assms by (simp add: cv_broadcast_def lock_do_i_hold_def kern_defs valid_def)

lemma P_in_interrupt:
  assumes "sem \<noteq> NULL" "in_interrupt s \<noteq> 0"
  shows "P sem (ws, s) = Panics s"
  using assms by (simp add: P_def kern_defs)

subsection \<open>What holds when a wait loop is left\<close>

lemma lock_acquire_loop_post:
  "lock_acquire_loop lock ws s = Returns x (ws', s') \<Longrightarrow>
     valid lock s' \<and> lk_holder (locks s' lock) = NULL"
proof (induction lock ws s rule: lock_acquire_loop.induct)
  case (1 lock ws s)
  show ?case
  proof (cases "valid lock s")
    case False
    with "1.prems" show ?thesis
      by (subst (asm) lock_acquire_loop.simps) (simp add: kern_defs)
  next
    case v: True
    show ?thesis
    proof (cases "lk_holder (locks s lock) = NULL")
      case True
      with v "1.prems" show ?thesis
        by (subst (asm) lock_acquire_loop.simps) (auto simp add: kern_defs)
    next
      case False
      from v have g: "lock_get lock (ws, s) = Returns (locks s lock) (ws, s)"
        by (simp add: kern_defs)
      from "1.prems" v False obtain ws1 s1 where
        sl: "thread_sleep lock (ws, s) = Returns () (ws1, s1)" and
        rec: "lock_acquire_loop lock ws1 s1 = Returns x (ws', s')"
        by (subst (asm) lock_acquire_loop.simps) (auto simp add: g split: outcome.splits)
      from "1.IH" [OF g False sl refl rec] show ?thesis .
    qed
  qed
qed

lemma P_loop_post:
  "P_loop sem ws s = Returns x (ws', s') \<Longrightarrow>
     valid sem s' \<and> sem_count (sems s' sem) \<noteq> 0"
proof (induction sem ws s rule: P_loop.induct)
  case (1 sem ws s)
  show ?case
  proof (cases "valid sem s")
    case False
    with "1.prems" show ?thesis
      by (subst (asm) P_loop.simps) (simp add: kern_defs)
  next
    case v: True
    show ?thesis
    proof (cases "sem_count (sems s sem) = 0")
      case False
      with v "1.prems" show ?thesis
        by (subst (asm) P_loop.simps) (auto simp add: kern_defs)
    next
      case True
      from v have g: "sem_get sem (ws, s) = Returns (sems s sem) (ws, s)"
        by (simp add: kern_defs)
      from "1.prems" v True obtain ws1 s1 where
        sl: "thread_sleep sem (ws, s) = Returns () (ws1, s1)" and
        rec: "P_loop sem ws1 s1 = Returns x (ws', s')"
        by (subst (asm) P_loop.simps) (auto simp add: g split: outcome.splits)
      from "1.IH" [OF g True sl refl rec] show ?thesis .
    qed
  qed
qed

lemma lock_acquire_Returns:
  assumes "lock_acquire lock c = Returns x (ws', s')"
  shows "valid lock s' \<and> lk_holder (locks s' lock) = curthread s'"
proof -
  obtain ws s where c: "c = (ws, s)" by (cases c)
  from assms [unfolded c] obtain ws2 s2 where
    loop: "lock_acquire_loop lock ws (s\<lparr>curspl := SPL_HIGH, trace := trace s @ [Ev_splhigh]\<rparr>)
             = Returns () (ws2, s2)"
    and fin: "s' = s2\<lparr>locks := (locks s2)(lock := lk_holder_update (\<lambda>_. curthread s2) (locks s2 lock)),
                  curspl := curspl s, trace := trace s2 @ [Ev_store lock, Ev_splx (curspl s)]\<rparr>"
    by (auto simp add: lock_acquire_def kern_defs split: outcome.splits if_splits
          dest: lock_acquire_loop_post)
  from lock_acquire_loop_post [OF loop] show ?thesis
    by (simp add: fin valid_def)
qed

lemma await_curthread:
  "await t chan spl ws s = Returns x (ws', s') \<Longrightarrow> curthread s' = t"
  by (induction ws arbitrary: s) (auto split: if_splits)

lemma thread_sleep_curthread:
  "thread_sleep chan (ws, s) = Returns x (ws', s') \<Longrightarrow> curthread s' = curthread s"
  unfolding thread_sleep_def by (auto dest: await_curthread)

lemma lock_acquire_loop_curthread:
  "lock_acquire_loop lock ws s = Returns x (ws', s') \<Longrightarrow> curthread s' = curthread s"
proof (induction lock ws s rule: lock_acquire_loop.induct)
  case (1 lock ws s)
  show ?case
  proof (cases "valid lock s \<and> lk_holder (locks s lock) \<noteq> NULL")
    case False
    with "1.prems" show ?thesis
      by (subst (asm) lock_acquire_loop.simps) (auto simp add: kern_defs split: if_splits)
  next
    case True
    then have g: "lock_get lock (ws, s) = Returns (locks s lock) (ws, s)"
      and h: "lk_holder (locks s lock) \<noteq> NULL"
      by (simp_all add: kern_defs)
    from "1.prems" True obtain ws1 s1 where
      sl: "thread_sleep lock (ws, s) = Returns () (ws1, s1)" and
      rec: "lock_acquire_loop lock ws1 s1 = Returns x (ws', s')"
      by (subst (asm) lock_acquire_loop.simps) (auto simp add: g split: outcome.splits)
    from "1.IH" [OF g h sl refl rec] thread_sleep_curthread [OF sl] show ?thesis by simp
  qed
qed

lemma lock_acquire_curthread:
  assumes "lock_acquire lock (ws, s) = Returns x (ws', s')"
  shows "curthread s' = curthread s"
proof -
  from assms obtain ws2 s2 where
    loop: "lock_acquire_loop lock ws (s\<lparr>curspl := SPL_HIGH, trace := trace s @ [Ev_splhigh]\<rparr>)
             = Returns () (ws2, s2)"
    and fin: "curthread s' = curthread s2"
    by (auto simp add: lock_acquire_def kern_defs split: outcome.splits if_splits)
  from lock_acquire_loop_curthread [OF loop] fin show ?thesis by simp
qed

subsection \<open>Signed 32-bit arithmetic near zero\<close>

lemma sint_dec:
  fixes c :: "32 word"
  assumes "0 <s c"
  shows "sint (c - 1) = sint c - 1"
proof -
  have pos: "0 < sint c" using assms by (simp add: word_sless_alt)
  have up: "sint c < 2 ^ 31" using sint_lt [of c] by simp
  have "sint (c - 1) = signed_take_bit 31 (sint c - 1)"
    by (simp add: sint_word_ariths)
  also have "\<dots> = sint c - 1"
    using pos up by (intro signed_take_bit_int_eq_self) simp_all
  finally show ?thesis .
qed

lemma dec_nonneg: "0 <s (c :: 32 word) \<Longrightarrow> 0 \<le>s c - 1"
  using sint_dec [of c] by (simp add: word_sle_eq word_sless_alt)

lemma sint_inc:
  fixes c :: "32 word"
  assumes "c <s 0"
  shows "sint (c + 1) = sint c + 1"
proof -
  have neg: "sint c < 0" using assms by (simp add: word_sless_alt)
  have low: "- (2 ^ 31) \<le> sint c" using sint_ge [of c] by simp
  have "sint (c + 1) = signed_take_bit 31 (sint c + 1)"
    by (simp add: sint_word_ariths)
  also have "\<dots> = sint c + 1"
    using neg low by (intro signed_take_bit_int_eq_self) simp_all
  finally show ?thesis .
qed

lemma inc_not_pos: "(c :: 32 word) <s 0 \<Longrightarrow> \<not> 0 <s c + 1"
  using sint_inc [of c] by (simp add: word_sless_alt)

lemma inc_pos_iff:
  fixes c :: "32 word"
  assumes "0 \<le>s c"
  shows "0 <s c + 1 \<longleftrightarrow> c \<noteq> INT_MAX"
proof (cases "c = INT_MAX")
  case True
  then show ?thesis by (simp add: INT_MAX_def word_sless_alt)
next
  case False
  have nonneg: "0 \<le> sint c" using assms by (simp add: word_sle_eq)
  have "sint c \<noteq> sint INT_MAX" using False by (auto dest: signed_word_eqI)
  then have "sint c \<noteq> 2147483647" by (simp add: INT_MAX_def)
  moreover have "sint c < 2 ^ 31" using sint_lt [of c] by simp
  ultimately have up: "sint c + 1 < 2 ^ 31" by simp
  have "sint (c + 1) = signed_take_bit 31 (sint c + 1)"
    by (simp add: sint_word_ariths)
  also have "\<dots> = sint c + 1"
    using nonneg up by (intro signed_take_bit_int_eq_self) simp_all
  finally have "0 < sint (c + 1)" using nonneg by simp
  with False show ?thesis by (simp add: word_sless_alt)
qed

lemma INT_MAX_inc: "INT_MAX + 1 = INT_MIN" and INT_MIN_neg: "INT_MIN <s 0"
  and INT_MAX_nonneg: "0 \<le>s INT_MAX"
  by (simp_all add: INT_MAX_def INT_MIN_def word_sless_alt word_sle_eq)

subsection \<open>What holds when a call returns\<close>

lemma block_Cons_Returns:
  "block (m # ms) c = Returns y c' \<longleftrightarrow> (\<exists>c1. m c = Returns () c1 \<and> block ms c1 = Returns y c')"
  by (simp add: seq_Returns)

lemma kassert_Returns: "kassert b c = Returns y c' \<longleftrightarrow> b \<and> c' = c"
  by (cases c) (auto simp add: kassert_def)

lemma lock_do_i_hold_Returns:
  assumes "lock_do_i_hold lock c = Returns b c'"
  shows "c' = c \<and> (b = 0 \<or> b = 1)"
  using assms by (cases c) (auto simp add: lock_do_i_hold_def kern_defs split: if_splits)

lemma cv_wait_curthread:
  assumes "cv_wait cv lock (ws, s) = Returns x (ws', s')"
  shows "curthread s' = curthread s"
proof -
  from assms obtain c3 ws4 s4 where
    mid: "kbind splhigh (\<lambda>spl. block [lock_release lock, thread_sleep cv, splx spl]) (ws, s)
            = Returns () (ws4, s4)" and
    acq: "lock_acquire lock (ws4, s4) = Returns () (ws', s')"
    unfolding cv_wait_def block_Cons_Returns kassert_Returns kbind_Returns
    by (auto simp add: ret_def dest!: lock_do_i_hold_Returns)
  from mid have "curthread s4 = curthread s"
    unfolding kbind_Returns block_Cons_Returns
    by (auto simp add: lock_release_def kern_defs split: if_splits outcome.splits
          dest!: thread_sleep_curthread)
  with lock_acquire_curthread [OF acq] show ?thesis by simp
qed

lemma P_negative_Panics:
  assumes "valid sem s" and "sem_count (sems s sem) <s 0"
  shows "P sem (ws, s) =
     (if in_interrupt s = 0
      then Panics (s\<lparr>curspl := SPL_HIGH, trace := trace s @ [Ev_splhigh]\<rparr>)
      else Panics s)"
proof -
  from assms(2) have nz: "sem_count (sems s sem) \<noteq> 0" and np: "\<not> 0 <s sem_count (sems s sem)"
    by (auto simp add: word_sless_alt)
  with assms(1) show ?thesis
    by (simp add: P_def P_loop.simps kern_defs valid_def)
qed

lemma sem_create_Returns:
  assumes "sem_create namearg n c = Returns sem (ws', s')" and "sem \<noteq> NULL"
  shows "valid sem s' \<and> sem_count (sems s' sem) = n"
proof -
  obtain ws s where c: "c = (ws, s)" by (cases c)
  from assms show ?thesis
    by (auto simp add: c sem_create_def kern_defs valid_def
          split: outcome.splits if_splits list.splits)
qed

subsection \<open>The semaphore invariant along a call\<close>

lemma world_keeps_Cons:
  "world_keeps sem (w # ws) \<longleftrightarrow> (\<forall>s. sem_inv sem s \<longrightarrow> sem_inv sem (w s)) \<and> world_keeps sem ws"
  by (auto simp add: world_keeps_def)

lemma sem_inv_local [simp]:
  "sem_inv sem (s\<lparr>curthread := t\<rparr>) = sem_inv sem s"
  "sem_inv sem (s\<lparr>curspl := l\<rparr>) = sem_inv sem s"
  "sem_inv sem (s\<lparr>sleepers := sl\<rparr>) = sem_inv sem s"
  "sem_inv sem (s\<lparr>trace := tr\<rparr>) = sem_inv sem s"
  by (simp_all add: sem_inv_def valid_def)

lemma await_keeps:
  "await t chan spl ws s = Returns x (ws', s') \<Longrightarrow> world_keeps sem ws \<Longrightarrow> sem_inv sem s \<Longrightarrow>
     sem_inv sem s' \<and> world_keeps sem ws'"
proof (induction ws arbitrary: s)
  case Nil
  then show ?case by simp
next
  case (Cons w ws)
  from Cons.prems(2,3) have step: "sem_inv sem (w s)" and rest: "world_keeps sem ws"
    by (simp_all add: world_keeps_Cons)
  show ?case
  proof (cases "(t, chan) \<in> set (sleepers (w s))")
    case True
    with Cons.prems(1) have "await t chan spl ws (w s) = Returns x (ws', s')" by simp
    from Cons.IH [OF this rest step] show ?thesis .
  next
    case False
    with Cons.prems(1) step rest show ?thesis by auto
  qed
qed

lemma thread_sleep_keeps:
  assumes "thread_sleep chan (ws, s) = Returns x (ws', s')" and "world_keeps sem ws"
    and "sem_inv sem s"
  shows "sem_inv sem s' \<and> world_keeps sem ws'"
proof -
  from assms(1) have "await (curthread s) chan (curspl s) ws
       (s\<lparr>sleepers := sleepers s @ [(curthread s, chan)],
          trace := trace s @ [Ev_sleep chan]\<rparr>) = Returns x (ws', s')"
    by (simp add: thread_sleep_def)
  from await_keeps [OF this assms(2)] assms(3) show ?thesis by simp
qed

lemma await_not_fails: "await t chan spl ws s \<noteq> Panics a \<and> await t chan spl ws s \<noteq> Faults"
  by (induction ws arbitrary: s) auto

lemma thread_sleep_not_fails:
  "thread_sleep chan (ws, s) \<noteq> Panics a" "thread_sleep chan (ws, s) \<noteq> Faults"
  by (simp_all add: thread_sleep_def await_not_fails)

lemma P_loop_outcome:
  "world_keeps sem ws \<Longrightarrow> sem_inv sem s \<Longrightarrow>
     (case P_loop sem ws s of
        Returns _ (ws', s') \<Rightarrow> sem_inv sem s' \<and> sem_count (sems s' sem) \<noteq> 0 \<and> world_keeps sem ws'
      | Panics _ \<Rightarrow> False
      | Faults \<Rightarrow> False
      | Blocks \<Rightarrow> True)"
proof (induction sem ws s rule: P_loop.induct)
  case (1 sem ws s)
  from "1.prems"(2) have g: "sem_get sem (ws, s) = Returns (sems s sem) (ws, s)"
    by (simp add: sem_inv_def kern_defs)
  show ?case
  proof (cases "sem_count (sems s sem) = 0")
    case False
    with g "1.prems" show ?thesis
      by (subst P_loop.simps) simp
  next
    case True
    show ?thesis
    proof (cases "thread_sleep sem (ws, s)")
      case (Returns u c1)
      obtain ws1 s1 where c1: "c1 = (ws1, s1)" by (cases c1)
      from thread_sleep_keeps [OF Returns [unfolded c1] "1.prems"]
      have "sem_inv sem s1" "world_keeps sem ws1" by simp_all
      from "1.IH" [OF g True Returns [unfolded c1] refl this(2,1)] g True Returns c1
      show ?thesis by (subst P_loop.simps) simp
    next
      case (Panics a)
      with thread_sleep_not_fails show ?thesis by blast
    next
      case Faults
      with thread_sleep_not_fails show ?thesis by blast
    next
      case Blocks
      with g True show ?thesis by (subst P_loop.simps) simp
    qed
  qed
qed

lemma P_outcome:
  assumes "world_keeps sem ws" and "sem_inv sem s"
  shows "case P sem (ws, s) of
        Returns _ (ws', s') \<Rightarrow> sem_inv sem s' \<and> world_keeps sem ws'
      | Panics s' \<Rightarrow> s' = s \<and> in_interrupt s \<noteq> 0
      | Faults \<Rightarrow> False
      | Blocks \<Rightarrow> True"
proof (cases "in_interrupt s = 0")
  case False
  with assms(2) show ?thesis by (simp add: P_in_interrupt sem_inv_def valid_def)
next
  case True
  let ?s0 = "s\<lparr>curspl := SPL_HIGH, trace := trace s @ [Ev_splhigh]\<rparr>"
  have nn: "sem \<noteq> NULL" using assms(2) by (simp add: sem_inv_def valid_def)
  have i0: "sem_inv sem ?s0" using assms(2) by simp
  have P_unf: "P sem (ws, s) =
      (case P_loop sem ws ?s0 of
         Returns _ c \<Rightarrow>
           block [kbind (sem_get sem) (\<lambda>x. kassert (0 <s sem_count x)),
                  sem_set sem (sem_count_update (\<lambda>c. c - 1)),
                  splx (curspl s)] c
       | Panics a \<Rightarrow> Panics a
       | Faults \<Rightarrow> Faults
       | Blocks \<Rightarrow> Blocks)"
    using nn True
    by (simp add: P_def seq_def kbind_def kassert_def gets_def splhigh_def split: outcome.splits)
  show ?thesis
  proof (cases "P_loop sem ws ?s0")
    case (Returns u c1)
    obtain ws1 s1 where c1: "c1 = (ws1, s1)" by (cases c1)
    from P_loop_outcome [OF assms(1) i0] Returns c1
    have inv1: "sem_inv sem s1" and nz: "sem_count (sems s1 sem) \<noteq> 0" and k: "world_keeps sem ws1"
      by simp_all
    from nz have "sint (sem_count (sems s1 sem)) \<noteq> 0"
      using signed_word_eqI [of "sem_count (sems s1 sem)" 0] by auto
    with inv1 have pos: "0 <s sem_count (sems s1 sem)"
      by (simp add: sem_inv_def word_sle_eq word_sless_alt)
    from inv1 have v1: "valid sem s1" by (simp add: sem_inv_def)
    from dec_nonneg [OF pos] v1 pos k show ?thesis
      unfolding P_unf Returns c1
      by (simp add: kern_defs sem_inv_def valid_def)
  next
    case (Panics a)
    with P_loop_outcome [OF assms(1) i0] show ?thesis by simp
  next
    case Faults
    with P_loop_outcome [OF assms(1) i0] show ?thesis by simp
  next
    case Blocks
    then show ?thesis unfolding P_unf by simp
  qed
qed

lemma V_outcome:
  assumes "sem_inv sem s"
  shows "case V sem (ws, s) of
        Returns _ (ws', s') \<Rightarrow> sem_inv sem s' \<and> ws' = ws
      | Panics s' \<Rightarrow> sem_count (sems s' sem) = INT_MIN
      | Faults \<Rightarrow> False
      | Blocks \<Rightarrow> False"
proof -
  from assms have v: "valid sem s" and n: "0 \<le>s sem_count (sems s sem)"
    by (simp_all add: sem_inv_def)
  show ?thesis
  proof (cases "sem_count (sems s sem) = INT_MAX")
    case True
    have "\<not> 0 <s INT_MIN" by (simp add: INT_MIN_def word_sless_alt)
    with True v n show ?thesis
      by (simp add: V_eq INT_MAX_inc)
  next
    case False
    with n have "0 <s sem_count (sems s sem) + 1" by (simp add: inc_pos_iff)
    with v show ?thesis
      by (simp add: V_eq sem_inv_def valid_def)
  qed
qed

lemma sem_ops_outcome:
  "world_keeps sem ws \<Longrightarrow> sem_inv sem s \<Longrightarrow>
     (case sem_ops sem ops (ws, s) of
        Returns _ (ws', s') \<Rightarrow> sem_inv sem s'
      | Panics s' \<Rightarrow> (sem_inv sem s' \<and> in_interrupt s' \<noteq> 0) \<or> sem_count (sems s' sem) = INT_MIN
      | Faults \<Rightarrow> False
      | Blocks \<Rightarrow> True)"
proof (induction ops arbitrary: ws s)
  case Nil
  then show ?case by (simp add: ret_def)
next
  case (Cons a ops)
  show ?case
  proof (cases a)
    case Op_P
    from P_outcome [OF Cons.prems] show ?thesis
      by (cases "P sem (ws, s)")
        (use Cons.prems in \<open>auto simp add: Op_P seq_def kbind_def intro: Cons.IH\<close>)
  next
    case Op_V
    from V_outcome [OF Cons.prems(2), of ws] show ?thesis
      by (cases "V sem (ws, s)")
        (use Cons.prems in \<open>auto simp add: Op_V seq_def kbind_def intro: Cons.IH\<close>)
  qed
qed

subsection \<open>Evaluating the examples\<close>

lemmas example_defs = as_thread_def held_by_def example_state_def valid_def NULL_def on_chan_def

lemmas call_defs = P_def V_def P_loop.simps sem_create_def sem_destroy_def
  lock_acquire_def lock_acquire_loop.simps lock_release_def lock_do_i_hold_def
  cv_wait_def cv_signal_def cv_broadcast_def thread_sleep_def

lemma cv_wait_scenario_returns: "\<exists>c'. cv_wait 30 20
       ([as_thread 200 (block [lock_acquire 20, cv_signal 30 20, lock_release 20])], held_by 100)
     = Returns () c'"
  by (simp add: cv_wait_def lock_do_i_hold_def lock_release_def lock_acquire_def cv_signal_def
        lock_acquire_loop.simps thread_sleep_def as_thread_def kern_defs
        held_by_def example_state_def valid_def NULL_def on_chan_def)

lemma sem_create_example:
  "sem_create ''sem2'' n (ws, example_state) = Returns 40 (ws, created n)"
  by (simp add: sem_create_def kern_defs created_def example_state_def valid_def NULL_def
        insert_commute)

lemma as_thread_V_keeps:
  assumes "sem_inv sem s"
  shows "sem_inv sem (as_thread t (V sem) s)"
proof -
  from assms have "sem_inv sem (s\<lparr>curthread := t\<rparr>)" by simp
  from V_outcome [OF this, of "[]"] assms show ?thesis
    by (cases "V sem ([], s\<lparr>curthread := t\<rparr>)") (auto simp add: as_thread_def)
qed

section \<open>Claims\<close>

text \<open>
  C1: whenever \<^verbatim>\<open>cv_wait\<close> returns, whatever the other threads did while the caller
  slept (the world is arbitrary), the caller is the running thread again and the
  holder of the paired lock: \<^verbatim>\<open>lock_do_i_hold\<close> is true in the configuration
  \<^verbatim>\<open>cv_wait\<close> returns. A call that returns also had its precondition: the lock is not
  null and was held by the caller at the call. In the witness thread 200 takes the
  lock, signals and releases it while thread 100 waits.
\<close>

theorem cv_wait_returns_holding_lock:
  assumes "cv_wait cv lock (ws, s) = Returns () (ws', s')"
  shows "lock \<noteq> NULL \<and>
         lock_do_i_hold lock (ws, s) = Returns 1 (ws, s) \<and>
         curthread s' = curthread s \<and>
         lk_holder (locks s' lock) = curthread s \<and>
         lock_do_i_hold lock (ws', s') = Returns 1 (ws', s')"
proof -
  from assms obtain c1 c2 c3 c4 where
    s1: "kassert (cv \<noteq> NULL) (ws, s) = Returns () c1" and
    s2: "kassert (lock \<noteq> NULL) c1 = Returns () c2" and
    s3: "kbind (lock_do_i_hold lock) (\<lambda>b. kassert (b \<noteq> 0)) c2 = Returns () c3" and
    acq: "lock_acquire lock c4 = Returns () (ws', s')"
    unfolding cv_wait_def block_Cons_Returns by (auto simp add: ret_def)
  from s1 s2 have nn: "lock \<noteq> NULL" and c2: "c2 = (ws, s)"
    by (simp_all add: kassert_Returns)
  from s3 obtain b where "lock_do_i_hold lock (ws, s) = Returns b (ws, s)"
    and "b \<noteq> 0" and "b = 0 \<or> b = 1"
    unfolding c2 kbind_Returns kassert_Returns by (auto dest: lock_do_i_hold_Returns)
  then have held: "lock_do_i_hold lock (ws, s) = Returns 1 (ws, s)"
    by auto
  have cur: "curthread s' = curthread s"
    using assms by (rule cv_wait_curthread)
  from lock_acquire_Returns [OF acq]
  have v: "valid lock s'" and h: "lk_holder (locks s' lock) = curthread s'"
    by simp_all
  from v h have "lock_do_i_hold lock (ws', s') = Returns 1 (ws', s')"
    by (simp add: lock_do_i_hold_eq)
  with nn held cur h show ?thesis by simp
qed

theorem cv_wait_returns_holding_lock_witness:
  "\<exists>ws' s'. cv_wait 30 20
       ([as_thread 200 (block [lock_acquire 20, cv_signal 30 20, lock_release 20])], held_by 100)
       = Returns () (ws', s') \<and>
     curthread s' = 100 \<and>
     lk_holder (locks s' 20) = 100 \<and>
     lock_do_i_hold 20 (ws', s') = Returns 1 (ws', s')"
proof -
  obtain ws' s' where r: "cv_wait 30 20
       ([as_thread 200 (block [lock_acquire 20, cv_signal 30 20, lock_release 20])], held_by 100)
       = Returns () (ws', s')"
    using cv_wait_scenario_returns by (metis surj_pair)
  have "curthread (held_by 100) = 100"
    by (simp add: held_by_def example_state_def)
  with cv_wait_returns_holding_lock [OF r] r show ?thesis by auto
qed

text \<open>
  C2 (the code does not do this): \<^verbatim>\<open>cv_signal\<close> declares \<^verbatim>\<open>spl\<close> and never calls
  \<^verbatim>\<open>splhigh\<close> or \<^verbatim>\<open>splx\<close>. Called at priority level 0 by the holder of the lock, it
  wakes the first sleeper with the level still 0 and logs the wake-up alone, whereas
  \<^verbatim>\<open>cv_broadcast\<close> in the same state brackets its wake-up with \<open>Ev_splhigh\<close> and
  \<open>Ev_splx\<close>.
\<close>

theorem cv_signal_wakes_without_raising_ipl:
  "cv_signal 30 20 ([], (held_by 100)\<lparr>sleepers := [(200, 30), (201, 30)]\<rparr>) =
     Returns () ([], (held_by 100)\<lparr>sleepers := [(201, 30)], trace := [Ev_wakeone 30]\<rparr>) \<and>
   cv_broadcast 30 20 ([], (held_by 100)\<lparr>sleepers := [(200, 30), (201, 30)]\<rparr>) =
     Returns () ([], (held_by 100)\<lparr>sleepers := [],
                      trace := [Ev_splhigh, Ev_wakeup 30, Ev_splx 0]\<rparr>)"
  by (simp add: call_defs kern_defs example_defs)

text \<open>
  C3 (the code does this for \<^verbatim>\<open>P\<close> only): in interrupt context \<^verbatim>\<open>P\<close> dies in its
  assertion with the state untouched, but \<^verbatim>\<open>lock_acquire\<close> has no such assertion and
  takes an unheld lock and returns, and \<^verbatim>\<open>cv_wait\<close> releases the lock and goes to
  sleep: it stays blocked when nobody wakes it and returns when somebody does.
\<close>

theorem lock_acquire_and_cv_wait_in_interrupt:
  "P 10 ([], example_state\<lparr>in_interrupt := 1\<rparr>) = Panics (example_state\<lparr>in_interrupt := 1\<rparr>) \<and>
   lock_acquire 20 ([], example_state\<lparr>in_interrupt := 1\<rparr>) =
     Returns () ([], example_state
       \<lparr>in_interrupt := 1,
        locks := (locks example_state)(20 := \<lparr>lk_name = 21, lk_holder = 100\<rparr>),
        trace := [Ev_splhigh, Ev_store 20, Ev_splx 0]\<rparr>) \<and>
   cv_wait 30 20 ([], (held_by 100)\<lparr>in_interrupt := 1\<rparr>) = Blocks \<and>
   (\<exists>c'. cv_wait 30 20
      ([as_thread 200 (block [lock_acquire 20, cv_signal 30 20, lock_release 20])],
       (held_by 100)\<lparr>in_interrupt := 1\<rparr>) = Returns () c')"
  by (simp add: call_defs kern_defs example_defs)

text \<open>
  C4 (corrected): the count can become negative. A semaphore created with the count
  \<open>INT_MAX\<close>, which is not negative, and a single \<^verbatim>\<open>V\<close>: the 32-bit increment wraps
  around to \<open>INT_MIN\<close>, the negative count is stored, and only then the assertion of
  \<^verbatim>\<open>V\<close> halts the kernel.
\<close>

theorem sem_count_negative_after_V_at_INT_MAX:
  "0 \<le>s INT_MAX \<and>
   sem_create ''sem2'' INT_MAX ([], example_state) = Returns 40 ([], created INT_MAX) \<and>
   sem_ops 40 [Op_V] ([], created INT_MAX) =
     Panics ((created INT_MAX)
       \<lparr>sems := (sems (created INT_MAX))(40 := \<lparr>sem_name = 41, sem_count = INT_MIN\<rparr>),
        curspl := SPL_HIGH,
        trace := trace (created INT_MAX) @ [Ev_splhigh, Ev_store 40]\<rparr>) \<and>
   INT_MIN <s 0"
proof -
  have wrap: "INT_MIN = (2147483648 :: 32 word)"
    unfolding INT_MIN_def by (rule signed_word_eqI) simp
  have "sem_ops 40 [Op_V] ([], created INT_MAX) =
     Panics ((created INT_MAX)
       \<lparr>sems := (sems (created INT_MAX))(40 := \<lparr>sem_name = 41, sem_count = INT_MIN\<rparr>),
        curspl := SPL_HIGH,
        trace := trace (created INT_MAX) @ [Ev_splhigh, Ev_store 40]\<rparr>)"
    unfolding wrap
    by (simp add: call_defs kern_defs example_defs created_def INT_MAX_def word_sless_alt)
  then show ?thesis
    by (simp add: sem_create_example INT_MAX_nonneg INT_MIN_neg)
qed

text \<open>
  C4 as amended: let a semaphore be created with an initial count of at least 0 and
  let the other threads keep its count at least 0. Then for every sequence of \<^verbatim>\<open>P\<close>
  and \<^verbatim>\<open>V\<close> calls: when the sequence returns the count is at least 0; no call
  makes an invalid access; and when an assertion halts the kernel, either it is the
  interrupt check of \<^verbatim>\<open>P\<close>, with the count at least 0, or the count is \<open>INT_MIN\<close>,
  stored by a \<^verbatim>\<open>V\<close> that incremented \<open>INT_MAX\<close>. The sequence is arbitrary, so the
  same holds after each of its prefixes.
\<close>

theorem sem_count_negative_only_on_overflow:
  assumes "sem_create namearg n c0 = Returns sem (ws1, s1)" and "sem \<noteq> NULL"
    and "0 \<le>s n" and "world_keeps sem ws1"
  shows "case sem_ops sem ops (ws1, s1) of
           Returns _ (ws, s) \<Rightarrow> 0 \<le>s sem_count (sems s sem)
         | Panics s \<Rightarrow>
             (0 \<le>s sem_count (sems s sem) \<and> in_interrupt s \<noteq> 0) \<or>
             sem_count (sems s sem) = INT_MIN
         | Faults \<Rightarrow> False
         | Blocks \<Rightarrow> True"
proof -
  from sem_create_Returns [OF assms(1,2)] assms(3) have "sem_inv sem s1"
    by (simp add: sem_inv_def)
  from sem_ops_outcome [OF assms(4) this, of ops] show ?thesis
    by (cases "sem_ops sem ops (ws1, s1)") (auto simp add: sem_inv_def)
qed

theorem sem_count_negative_only_on_overflow_witness:
  "sem_create ''sem2'' 1 ([as_thread 200 (V 40)], example_state) =
     Returns 40 ([as_thread 200 (V 40)], created 1) \<and>
   world_keeps 40 [as_thread 200 (V 40)] \<and>
   (\<exists>s. sem_ops 40 [Op_P, Op_P, Op_V] ([as_thread 200 (V 40)], created 1) = Returns () ([], s) \<and>
        0 \<le>s sem_count (sems s 40))"
proof -
  have cr: "sem_create ''sem2'' 1 ([as_thread 200 (V 40)], example_state) =
     Returns 40 ([as_thread 200 (V 40)], created 1)"
    by (rule sem_create_example)
  have nn: "(40::nat) \<noteq> NULL" by (simp add: NULL_def)
  have n: "0 \<le>s (1 :: 32 word)" by (simp add: word_sle_eq)
  have k: "world_keeps 40 [as_thread 200 (V 40)]"
    by (simp add: world_keeps_def as_thread_V_keeps)
  have "\<exists>s. sem_ops 40 [Op_P, Op_P, Op_V] ([as_thread 200 (V 40)], created 1) = Returns () ([], s)"
    by (simp add: call_defs kern_defs example_defs created_def word_sless_alt)
  then obtain s where
    run: "sem_ops 40 [Op_P, Op_P, Op_V] ([as_thread 200 (V 40)], created 1) = Returns () ([], s)" ..
  from sem_count_negative_only_on_overflow [OF cr nn n k, of "[Op_P, Op_P, Op_V]"] run
  have "0 \<le>s sem_count (sems s 40)" by simp
  with cr k run show ?thesis by blast
qed

text \<open>
  C5: on a valid lock, \<^verbatim>\<open>lock_release\<close> always returns, with the holder set to
  \<^verbatim>\<open>NULL\<close> and every sleeper of the lock woken, whoever the calling thread is: nothing
  compares the holder with \<open>curthread\<close>. The witness releases a lock held by thread 200
  from thread 100.
\<close>

theorem lock_release_unconditional:
  assumes "valid lock s"
  shows "lock_release lock (ws, s) =
     Returns () (ws, s\<lparr>locks := (locks s)(lock := lk_holder_update (\<lambda>_. NULL) (locks s lock)),
                       sleepers := filter (\<lambda>e. \<not> on_chan lock e) (sleepers s),
                       trace := trace s @ [Ev_splhigh, Ev_store lock, Ev_wakeup lock, Ev_splx (curspl s)]\<rparr>)"
  using assms by (rule lock_release_eq)

theorem lock_release_unconditional_witness:
  "lk_holder (locks (held_by 200) 20) \<noteq> curthread (held_by 200) \<and>
   lock_release 20 ([], (held_by 200)\<lparr>sleepers := [(300, 20), (301, 30), (302, 20)]\<rparr>) =
     Returns () ([], example_state
       \<lparr>sleepers := [(301, 30)],
        trace := [Ev_splhigh, Ev_store 20, Ev_wakeup 20, Ev_splx 0]\<rparr>)"
  using lock_release_unconditional
    [of 20 "(held_by 200)\<lparr>sleepers := [(300, 20), (301, 30), (302, 20)]\<rparr>" "[]"]
  by (simp add: held_by_def example_state_def valid_def NULL_def on_chan_def)

text \<open>
  C6: on a valid semaphore, \<^verbatim>\<open>V\<close> raises the priority level, increments the count and
  asserts that it is now strictly positive; if so it wakes every thread that sleeps on
  the semaphore (all of them, not one) and restores the priority level before it
  returns. In the trace the store of the incremented count (\<open>Ev_store\<close>) and the
  wake-up (\<open>Ev_wakeup\<close>) lie, in this order, between \<open>Ev_splhigh\<close> and \<open>Ev_splx\<close>: both
  happen inside the region. When the assertion fails, it fails inside the region,
  after the store, and nobody has been woken.
\<close>

theorem V_increments_then_wakes_all:
  assumes "valid sem s"
  shows "V sem (ws, s) =
     (if 0 <s sem_count (sems s sem) + 1
      then Returns () (ws, s\<lparr>sems := (sems s)(sem := sem_count_update (\<lambda>c. c + 1) (sems s sem)),
                         sleepers := filter (\<lambda>e. \<not> on_chan sem e) (sleepers s),
                         trace := trace s @ [Ev_splhigh, Ev_store sem, Ev_wakeup sem, Ev_splx (curspl s)]\<rparr>)
      else Panics (s\<lparr>sems := (sems s)(sem := sem_count_update (\<lambda>c. c + 1) (sems s sem)),
                    curspl := SPL_HIGH,
                    trace := trace s @ [Ev_splhigh, Ev_store sem]\<rparr>))"
  using assms by (rule V_eq)

theorem V_increments_then_wakes_all_witness:
  "V 10 ([], example_state\<lparr>sleepers := [(200, 10), (201, 20), (202, 10)]\<rparr>) =
     Returns () ([], example_state
       \<lparr>sems := (sems example_state)(10 := \<lparr>sem_name = 11, sem_count = 2\<rparr>),
        sleepers := [(201, 20)],
        trace := [Ev_splhigh, Ev_store 10, Ev_wakeup 10, Ev_splx 0]\<rparr>)"
  using V_increments_then_wakes_all
    [of 10 "example_state\<lparr>sleepers := [(200, 10), (201, 20), (202, 10)]\<rparr>" "[]"]
  by (simp add: example_state_def valid_def NULL_def on_chan_def word_sless_alt)

text \<open>
  C7: on a valid lock, \<^verbatim>\<open>lock_do_i_hold\<close> returns true (1) exactly when the holder field
  equals the calling thread, and leaves the whole state as it was: no field changes,
  nothing is logged (so the priority level is neither raised nor restored), and the
  world is not consumed (it does not sleep).
\<close>

theorem lock_do_i_hold_pure:
  assumes "valid lock s"
  shows "lock_do_i_hold lock (ws, s) =
     Returns (if lk_holder (locks s lock) = curthread s then 1 else 0) (ws, s)"
  using assms by (rule lock_do_i_hold_eq)

theorem lock_do_i_hold_pure_witness:
  "lock_do_i_hold 20 ([], held_by 100) = Returns 1 ([], held_by 100) \<and>
   lock_do_i_hold 20 ([], held_by 200) = Returns 0 ([], held_by 200)"
  using lock_do_i_hold_pure [of 20 "held_by 100" "[]"] lock_do_i_hold_pure [of 20 "held_by 200" "[]"]
  by (simp add: held_by_def example_state_def valid_def NULL_def)

text \<open>
  C8: with no other thread present (an empty world, nobody asleep), a thread that
  acquires an unheld lock holds it, and after releasing it the lock is unheld,
  \<^verbatim>\<open>lock_do_i_hold\<close> is false for the thread as it was before the acquire, and the state
  is the one before the acquire (up to the ghost trace). A running thread is never the
  null thread.
\<close>

theorem lock_acquire_release_round_trip:
  assumes "valid lock s" and "lk_holder (locks s lock) = NULL" and "curthread s \<noteq> NULL"
    and "sleepers s = []"
  shows "\<exists>s1 s2.
     lock_acquire lock ([], s) = Returns () ([], s1) \<and>
     lock_do_i_hold lock ([], s1) = Returns 1 ([], s1) \<and>
     lock_release lock ([], s1) = Returns () ([], s2) \<and>
     lk_holder (locks s2 lock) = NULL \<and>
     lock_do_i_hold lock ([], s2) = Returns 0 ([], s2) \<and>
     lock_do_i_hold lock ([], s) = Returns 0 ([], s) \<and>
     s2\<lparr>trace := trace s\<rparr> = s"
proof -
  let ?s1 = "s\<lparr>locks := (locks s)(lock := lk_holder_update (\<lambda>_. curthread s) (locks s lock)),
               trace := trace s @ [Ev_splhigh, Ev_store lock, Ev_splx (curspl s)]\<rparr>"
  let ?s2 = "?s1\<lparr>locks := (locks ?s1)(lock := lk_holder_update (\<lambda>_. NULL) (locks ?s1 lock)),
               sleepers := filter (\<lambda>e. \<not> on_chan lock e) (sleepers ?s1),
               trace := trace ?s1 @ [Ev_splhigh, Ev_store lock, Ev_wakeup lock, Ev_splx (curspl ?s1)]\<rparr>"
  have v1: "valid lock ?s1" and v2: "valid lock ?s2"
    using assms(1) by (simp_all add: valid_def)
  have a: "lock_acquire lock ([], s) = Returns () ([], ?s1)"
    using assms(1,2) by (rule lock_acquire_free_eq)
  have h1: "lock_do_i_hold lock ([], ?s1) = Returns 1 ([], ?s1)"
    using lock_do_i_hold_eq [OF v1, of "[]"] by simp
  have r: "lock_release lock ([], ?s1) = Returns () ([], ?s2)"
    by (rule lock_release_eq [OF v1])
  have n: "lk_holder (locks ?s2 lock) = NULL"
    by simp
  have h2: "lock_do_i_hold lock ([], ?s2) = Returns 0 ([], ?s2)"
    using lock_do_i_hold_eq [OF v2, of "[]"] assms(3) by auto
  have h0: "lock_do_i_hold lock ([], s) = Returns 0 ([], s)"
    using lock_do_i_hold_eq [OF assms(1), of "[]"] assms(2,3) by auto
  have "locks ?s2 = locks s"
    using assms(2) by (auto simp add: fun_eq_iff)
  then have e: "?s2\<lparr>trace := trace s\<rparr> = s"
    using assms(4) by simp
  from a h1 r n h2 h0 e show ?thesis by blast
qed

theorem lock_acquire_release_round_trip_witness:
  "\<exists>s1 s2.
     lock_acquire 20 ([], example_state) = Returns () ([], s1) \<and>
     lock_do_i_hold 20 ([], s1) = Returns 1 ([], s1) \<and>
     lock_release 20 ([], s1) = Returns () ([], s2) \<and>
     lk_holder (locks s2 20) = NULL \<and>
     lock_do_i_hold 20 ([], s2) = Returns 0 ([], s2) \<and>
     lock_do_i_hold 20 ([], example_state) = Returns 0 ([], example_state) \<and>
     s2\<lparr>trace := trace example_state\<rparr> = example_state"
proof -
  have "valid 20 example_state" "lk_holder (locks example_state 20) = NULL"
    "curthread example_state \<noteq> NULL" "sleepers example_state = []"
    by (simp_all add: example_state_def valid_def NULL_def)
  then show ?thesis by (rule lock_acquire_release_round_trip)
qed

text \<open>
  C9: on a valid semaphore whose name is a block of its own, \<^verbatim>\<open>sem_destroy\<close> dies in
  its assertion when some thread sleeps on the semaphore, the check being made at the
  raised priority level; otherwise it frees the name and the semaphore record and
  returns.
\<close>

theorem sem_destroy_checks_then_frees:
  assumes "valid sem s" and "valid (sem_name (sems s sem)) s" and "sem_name (sems s sem) \<noteq> sem"
  shows "sem_destroy sem (ws, s) =
     (if list_ex (on_chan sem) (sleepers s)
      then Panics (s\<lparr>curspl := SPL_HIGH, trace := trace s @ [Ev_splhigh, Ev_hassleepers sem]\<rparr>)
      else Returns () (ws, s\<lparr>free_blocks := sem # sem_name (sems s sem) # free_blocks s,
                         allocated := allocated s - {sem_name (sems s sem)} - {sem},
                         trace := trace s @ [Ev_splhigh, Ev_hassleepers sem, Ev_splx (curspl s),
                                            Ev_kfree (sem_name (sems s sem)), Ev_kfree sem]\<rparr>))"
  using assms by (rule sem_destroy_eq)

theorem sem_destroy_checks_then_frees_witness:
  "sem_destroy 10 ([], example_state) =
     Returns () ([], example_state
       \<lparr>free_blocks := [10, 11, 40, 41],
        allocated := {20, 21, 30, 31},
        trace := [Ev_splhigh, Ev_hassleepers 10, Ev_splx 0, Ev_kfree 11, Ev_kfree 10]\<rparr>) \<and>
   sem_destroy 10 ([], example_state\<lparr>sleepers := [(200, 10)]\<rparr>) =
     Panics (example_state
       \<lparr>curspl := SPL_HIGH, sleepers := [(200, 10)],
        trace := [Ev_splhigh, Ev_hassleepers 10]\<rparr>)"
proof -
  have a: "sem_destroy 10 ([], example_state) =
     Returns () ([], example_state
       \<lparr>free_blocks := [10, 11, 40, 41],
        allocated := {20, 21, 30, 31},
        trace := [Ev_splhigh, Ev_hassleepers 10, Ev_splx 0, Ev_kfree 11, Ev_kfree 10]\<rparr>)"
    using sem_destroy_checks_then_frees [of 10 example_state "[]"]
    by (auto simp add: example_state_def valid_def NULL_def on_chan_def)
  have b: "sem_destroy 10 ([], example_state\<lparr>sleepers := [(200, 10)]\<rparr>) =
     Panics (example_state
       \<lparr>curspl := SPL_HIGH, sleepers := [(200, 10)],
        trace := [Ev_splhigh, Ev_hassleepers 10]\<rparr>)"
    using sem_destroy_checks_then_frees [of 10 "example_state\<lparr>sleepers := [(200, 10)]\<rparr>" "[]"]
    by (simp add: example_state_def valid_def NULL_def on_chan_def)
  from a b show ?thesis by simp
qed

text \<open>
  C10: \<^verbatim>\<open>sem_create\<close> does not look at \<^verbatim>\<open>initial_count\<close>. When both allocations
  succeed and the initial count is negative, it returns the new semaphore with that
  negative count and no assertion fails; the next \<^verbatim>\<open>P\<close> or \<^verbatim>\<open>V\<close> on it dies in its
  assertion.
\<close>

theorem sem_create_accepts_negative_count:
  assumes "free_blocks s = p # q # rest" and "p \<noteq> NULL" and "q \<noteq> NULL"
    and "initial_count <s 0"
  shows "\<exists>s'. sem_create namearg initial_count (ws, s) = Returns p (ws, s') \<and>
           sem_count (sems s' p) = initial_count \<and>
           \<not> 0 \<le>s sem_count (sems s' p) \<and>
           P p (ws, s') =
             (if in_interrupt s' = 0
              then Panics (s'\<lparr>curspl := SPL_HIGH, trace := trace s' @ [Ev_splhigh]\<rparr>)
              else Panics s') \<and>
           V p (ws, s') =
             Panics (s'\<lparr>sems := (sems s')(p := sem_count_update (\<lambda>c. c + 1) (sems s' p)),
                        curspl := SPL_HIGH,
                        trace := trace s' @ [Ev_splhigh, Ev_store p]\<rparr>)"
proof -
  let ?s' = "s\<lparr>free_blocks := rest,
                allocated := insert q (insert p (allocated s)),
                sems := (sems s)(p := (sems s p)\<lparr>sem_name := q, sem_count := initial_count\<rparr>),
                strings := (strings s)(q := namearg),
                trace := trace s @ [Ev_kmalloc p, Ev_kmalloc q, Ev_store p, Ev_store p]\<rparr>"
  have cr: "sem_create namearg initial_count (ws, s) = Returns p (ws, ?s')"
    using assms(1-3) by (rule sem_create_eq)
  have cnt: "sem_count (sems ?s' p) = initial_count" by simp
  have v: "valid p ?s'" using assms(2) by (simp add: valid_def)
  have neg: "sem_count (sems ?s' p) <s 0" using assms(4) by simp
  then have nonneg: "\<not> 0 \<le>s sem_count (sems ?s' p)"
    by (simp add: word_sless_alt word_sle_eq)
  have vp: "V p (ws, ?s') =
             Panics (?s'\<lparr>sems := (sems ?s')(p := sem_count_update (\<lambda>c. c + 1) (sems ?s' p)),
                        curspl := SPL_HIGH,
                        trace := trace ?s' @ [Ev_splhigh, Ev_store p]\<rparr>)"
    using inc_not_pos [OF neg] by (simp only: V_eq [OF v] if_False)
  from cr cnt nonneg P_negative_Panics [OF v neg, of ws] vp
  show ?thesis by blast
qed

theorem sem_create_accepts_negative_count_witness:
  "\<exists>s'. sem_create ''bad'' (- 3) ([], example_state) = Returns 40 ([], s') \<and>
         sem_count (sems s' 40) = - 3 \<and>
         \<not> 0 \<le>s sem_count (sems s' 40) \<and>
         P 40 ([], s') = Panics (s'\<lparr>curspl := SPL_HIGH, trace := trace s' @ [Ev_splhigh]\<rparr>) \<and>
         V 40 ([], s') =
           Panics (s'\<lparr>sems := (sems s')(40 := sem_count_update (\<lambda>c. c + 1) (sems s' 40)),
                      curspl := SPL_HIGH,
                      trace := trace s' @ [Ev_splhigh, Ev_store 40]\<rparr>)"
proof -
  have h: "free_blocks example_state = 40 # 41 # []" "(40::nat) \<noteq> NULL" "(41::nat) \<noteq> NULL"
    "(- 3 :: 32 word) <s 0"
    by (simp_all add: example_state_def NULL_def word_sless_alt)
  have i: "in_interrupt example_state = 0"
    by (simp add: example_state_def)
  from sem_create_accepts_negative_count [OF h, of "''bad''" "[]"] obtain s' where
    "sem_create ''bad'' (- 3) ([], example_state) = Returns 40 ([], s')"
    and rest: "sem_count (sems s' 40) = - 3" "\<not> 0 \<le>s sem_count (sems s' 40)"
      "P 40 ([], s') =
             (if in_interrupt s' = 0
              then Panics (s'\<lparr>curspl := SPL_HIGH, trace := trace s' @ [Ev_splhigh]\<rparr>)
              else Panics s')"
      "V 40 ([], s') =
           Panics (s'\<lparr>sems := (sems s')(40 := sem_count_update (\<lambda>c. c + 1) (sems s' 40)),
                      curspl := SPL_HIGH,
                      trace := trace s' @ [Ev_splhigh, Ev_store 40]\<rparr>)"
    by blast
  moreover from this(1) have "in_interrupt s' = 0"
    using i sem_create_eq [OF h(1-3), of "''bad''" "- 3" "[]"] by auto
  ultimately show ?thesis by auto
qed

end
